theory Spec2Isabelle
  imports Complex_Main "HOL-Library.Sublist"
begin

section \<open>Identity: failed-login counter and lock (models/User.js)\<close>

text \<open>
  Instants are JavaScript time values: integer milliseconds since the epoch. A refresh-token
  record of the identity is kept as the schema declares it; the token itself is introduced
  with the token service below.
\<close>

type_synonym instant = int

type_synonym oid = nat

text \<open>
  A JSON Web Token is modelled symbolically: a signed token carries its payload (the user id,
  \<open>iat\<close> and \<open>exp\<close>, both in whole seconds) and the secret it was signed with; any other
  string is \<open>Unsigned\<close>. Signing with HS256 is a function of payload and secret, so two
  tokens with equal payload and secret are the same string.
\<close>

datatype token = Signed oid int int string | Unsigned string

record tokenObj =
  tok :: token
  createdAt :: instant
  expiresAt :: instant
  isActive :: bool

record backupCode =
  code :: string
  used :: bool

record user =
  user_id :: oid
  email :: string
  mfaEnabled :: bool
  mfaBackupCodes :: "backupCode list"
  refreshTokens :: "tokenObj list"
  loginAttempts :: nat
  lockUntil :: "instant option"
  lastLogin :: "instant option"

text \<open>The virtual \<open>isLocked\<close>: \<open>!!(this.lockUntil && this.lockUntil > Date.now())\<close>.\<close>

definition isLocked :: "instant \<Rightarrow> user \<Rightarrow> bool" where
  "isLocked now u = (case lockUntil u of None \<Rightarrow> False | Some l \<Rightarrow> l > now)"

text \<open>
  \<open>incLoginAttempts\<close>: an expired lock restarts the counter at 1; otherwise the counter is
  incremented and, from the fifth failure on, an unlocked account is locked for two hours.
\<close>

definition incLoginAttempts :: "instant \<Rightarrow> user \<Rightarrow> user" where
  "incLoginAttempts now u =
     (if (case lockUntil u of None \<Rightarrow> False | Some l \<Rightarrow> l < now)
      then u\<lparr>loginAttempts := 1, lockUntil := None\<rparr>
      else if loginAttempts u + 1 \<ge> 5 \<and> \<not> isLocked now u
      then u\<lparr>loginAttempts := loginAttempts u + 1, lockUntil := Some (now + 2 * 60 * 60 * 1000)\<rparr>
      else u\<lparr>loginAttempts := loginAttempts u + 1\<rparr>)"

text \<open>
  \<open>resetLoginAttempts\<close> unsets both fields; an unset \<open>loginAttempts\<close> reads as the schema
  default 0.
\<close>

definition resetLoginAttempts :: "user \<Rightarrow> user" where
  "resetLoginAttempts u = u\<lparr>loginAttempts := 0, lockUntil := None\<rparr>"

text \<open>A run of failed attempts, one per instant of the list, in order.\<close>

definition failedAttempts :: "instant list \<Rightarrow> user \<Rightarrow> user" where
  "failedAttempts ts u = foldl (\<lambda>v t. incLoginAttempts t v) u ts"


text \<open>\<open>cleanupRefreshTokens\<close> keeps the records that are active and not yet expired.\<close>

definition cleanupRefreshTokens :: "instant \<Rightarrow> user \<Rightarrow> user" where
  "cleanupRefreshTokens now u =
     u\<lparr>refreshTokens := filter (\<lambda>tokenObj. isActive tokenObj \<and> expiresAt tokenObj > now)
                          (refreshTokens u)\<rparr>"

section \<open>Token service (utils/helpers.js, controllers/authController.js)\<close>

text \<open>
  The environment holds the two signing secrets. The expiry settings are the defaults of the
  source, \<open>'15m'\<close> and \<open>'7d'\<close>.
\<close>

record env =
  JWT_ACCESS_SECRET :: string
  JWT_REFRESH_SECRET :: string

datatype jwt_error = JsonWebTokenError | TokenExpiredError

text \<open>
  \<open>jwt.sign(payload, secret, {expiresIn})\<close> stamps \<open>iat = floor(now / 1000)\<close> and
  \<open>exp = iat + expiresIn\<close>; \<open>jwt.verify\<close> checks the signature, then that the clock in
  seconds is below \<open>exp\<close>.
\<close>

definition jwt_sign :: "oid \<Rightarrow> string \<Rightarrow> int \<Rightarrow> instant \<Rightarrow> token" where
  "jwt_sign userId secret expiresIn now =
     Signed userId (now div 1000) (now div 1000 + expiresIn) secret"

definition jwt_verify :: "token \<Rightarrow> string \<Rightarrow> instant \<Rightarrow> jwt_error + oid" where
  "jwt_verify t secret now =
     (case t of
        Unsigned s \<Rightarrow> Inl JsonWebTokenError
      | Signed userId iat ex k \<Rightarrow>
          if k \<noteq> secret then Inl JsonWebTokenError
          else if now div 1000 \<ge> ex then Inl TokenExpiredError
          else Inr userId)"

definition generateAccessToken :: "env \<Rightarrow> instant \<Rightarrow> oid \<Rightarrow> token" where
  "generateAccessToken e now userId = jwt_sign userId (JWT_ACCESS_SECRET e) (15 * 60) now"

definition generateRefreshToken :: "env \<Rightarrow> instant \<Rightarrow> oid \<Rightarrow> token" where
  "generateRefreshToken e now userId =
     jwt_sign userId (JWT_REFRESH_SECRET e) (7 * 24 * 60 * 60) now"

definition verifyRefreshToken :: "env \<Rightarrow> instant \<Rightarrow> token \<Rightarrow> jwt_error + oid" where
  "verifyRefreshToken e now t = jwt_verify t (JWT_REFRESH_SECRET e) now"

definition generateTokenPair :: "env \<Rightarrow> instant \<Rightarrow> oid \<Rightarrow> token \<times> token" where
  "generateTokenPair e now userId =
     (generateAccessToken e now userId, generateRefreshToken e now userId)"

definition getRefreshTokenExpiry :: "instant \<Rightarrow> instant" where
  "getRefreshTokenExpiry now = now + 7 * 24 * 60 * 60 * 1000"

text \<open>The user collection, with the two lookups the controllers use and the write-back.\<close>

type_synonym users = "user list"

definition findById :: "users \<Rightarrow> oid \<Rightarrow> user option" where
  "findById us i = find (\<lambda>u. user_id u = i) us"

definition findOneByEmail :: "users \<Rightarrow> string \<Rightarrow> user option" where
  "findOneByEmail us m = find (\<lambda>u. email u = m) us"

definition saveUser :: "users \<Rightarrow> user \<Rightarrow> users" where
  "saveUser us u = map (\<lambda>v. if user_id v = user_id u then u else v) us"

text \<open>
  \<open>login\<close>. The outcome of \<open>bcrypt.compare\<close> and of the time-based code check are inputs
  (\<open>isValidPassword\<close>, \<open>verified\<close>): both are computed by libraries outside the repository.
  The e-mail is taken as already sanitised by the route.
\<close>

datatype login_response =
    LoginFailed
  | AccountLocked
  | RequiresMFA
  | InvalidMFACode
  | LoginSuccessful token token

text \<open>\<open>toUpperCase\<close> on the ASCII letters, which is what a submitted code consists of.\<close>

definition toUpperCase :: "string \<Rightarrow> string" where
  "toUpperCase s =
     map (\<lambda>c. if 97 \<le> (of_char c :: nat) \<and> (of_char c :: nat) \<le> 122
              then char_of ((of_char c :: nat) - 32) else c) s"

fun findIndex :: "('a \<Rightarrow> bool) \<Rightarrow> 'a list \<Rightarrow> nat option" where
  "findIndex P [] = None"
| "findIndex P (x # xs) =
     (if P x then Some 0 else map_option Suc (findIndex P xs))"

definition issueAfterLogin :: "env \<Rightarrow> instant \<Rightarrow> user \<Rightarrow> login_response \<times> user" where
  "issueAfterLogin e now u =
     (let u1 = resetLoginAttempts u;
          u2 = u1\<lparr>lastLogin := Some now\<rparr>;
          u3 = cleanupRefreshTokens now u2;
          (accessToken, refreshToken) = generateTokenPair e now (user_id u3);
          u4 = u3\<lparr>refreshTokens := refreshTokens u3 @
                 [\<lparr>tok = refreshToken, createdAt = now,
                   expiresAt = getRefreshTokenExpiry now, isActive = True\<rparr>]\<rparr>
      in (LoginSuccessful accessToken refreshToken, u4))"

definition login ::
  "env \<Rightarrow> instant \<Rightarrow> users \<Rightarrow> string \<Rightarrow> bool \<Rightarrow> string option \<Rightarrow> bool
     \<Rightarrow> login_response \<times> users" where
  "login e now us mail isValidPassword mfaCode verified =
     (case findOneByEmail us mail of
        None \<Rightarrow> (LoginFailed, us)
      | Some u \<Rightarrow>
          if isLocked now u then (AccountLocked, us)
          else if \<not> isValidPassword then (LoginFailed, saveUser us (incLoginAttempts now u))
          else if mfaEnabled u then
            (case mfaCode of
               None \<Rightarrow> (RequiresMFA, us)
             | Some c \<Rightarrow>
                 if verified then
                   (let (r, u') = issueAfterLogin e now u in (r, saveUser us u'))
                 else
                   (case findIndex (\<lambda>bc. code bc = toUpperCase c \<and> \<not> used bc)
                           (mfaBackupCodes u) of
                      None \<Rightarrow> (InvalidMFACode, saveUser us (incLoginAttempts now u))
                    | Some i \<Rightarrow>
                        (let u1 = u\<lparr>mfaBackupCodes :=
                                   (mfaBackupCodes u)[i := (mfaBackupCodes u ! i)\<lparr>used := True\<rparr>]\<rparr>;
                             (r, u') = issueAfterLogin e now u1
                         in (r, saveUser us u'))))
          else (let (r, u') = issueAfterLogin e now u in (r, saveUser us u')))"

text \<open>
  \<open>refreshToken\<close>: the body's token (absent, or a string), verified, looked up among the
  records of the decoded identity.
\<close>

datatype refresh_response =
    RefreshTokenRequired
  | InvalidRefreshToken
  | UserNotFound
  | InvalidOrExpiredRefreshToken
  | NewAccessToken token

definition refreshToken :: "env \<Rightarrow> instant \<Rightarrow> users \<Rightarrow> token option \<Rightarrow> refresh_response" where
  "refreshToken e now us body =
     (case body of
        None \<Rightarrow> RefreshTokenRequired
      | Some t \<Rightarrow>
          (case verifyRefreshToken e now t of
             Inl err \<Rightarrow> InvalidRefreshToken
           | Inr userId \<Rightarrow>
               (case findById us userId of
                  None \<Rightarrow> UserNotFound
                | Some u \<Rightarrow>
                    (case find (\<lambda>tokenObj. tok tokenObj = t \<and> isActive tokenObj
                                     \<and> expiresAt tokenObj > now) (refreshTokens u) of
                       None \<Rightarrow> InvalidOrExpiredRefreshToken
                     | Some tokenObj \<Rightarrow> NewAccessToken (generateAccessToken e now (user_id u))))))"

text \<open>
  \<open>logout\<close>, for the identity the access token resolved to: the first record holding the
  token is deactivated.
\<close>

definition logout :: "users \<Rightarrow> oid \<Rightarrow> token option \<Rightarrow> users" where
  "logout us userId body =
     (case body of
        None \<Rightarrow> us
      | Some t \<Rightarrow>
          (case findById us userId of
             None \<Rightarrow> us
           | Some u \<Rightarrow>
               (case findIndex (\<lambda>tokenObj. tok tokenObj = t) (refreshTokens u) of
                  None \<Rightarrow> us
                | Some i \<Rightarrow>
                    saveUser us (u\<lparr>refreshTokens :=
                       (refreshTokens u)[i := (refreshTokens u ! i)\<lparr>isActive := False\<rparr>]\<rparr>))))"

section \<open>Calendar days (Date.prototype.toISOString, utils/helpers.js)\<close>

text \<open>
  \<open>date.toISOString().split('T')[0]\<close> is the UTC calendar date of the instant. The day
  number is the instant divided by the milliseconds of a day, rounded down; the civil date
  of a day number follows the proleptic Gregorian calendar. Years from 0 to 9999 print with
  four digits, the others with a sign and six digits.
\<close>

definition msPerDay :: int where
  "msPerDay = 24 * 60 * 60 * 1000"

definition utcDay :: "instant \<Rightarrow> int" where
  "utcDay t = t div msPerDay"

definition civilFromDays :: "int \<Rightarrow> int \<times> int \<times> int" where
  "civilFromDays z =
     (let z1 = z + 719468;
          era = z1 div 146097;
          doe = z1 mod 146097;
          yoe = (doe - doe div 1460 + doe div 36524 - doe div 146096) div 365;
          doy = doe - (365 * yoe + yoe div 4 - yoe div 100);
          mp = (5 * doy + 2) div 153;
          d = doy - (153 * mp + 2) div 5 + 1;
          m = (if mp < 10 then mp + 3 else mp - 9);
          y = yoe + era * 400 + (if m \<le> 2 then 1 else 0)
      in (y, m, d))"

definition digit :: "int \<Rightarrow> char" where
  "digit n = ''0123456789'' ! nat (n mod 10)"

definition digits2 :: "int \<Rightarrow> string" where
  "digits2 n = [digit (n div 10), digit n]"

definition digits4 :: "int \<Rightarrow> string" where
  "digits4 n = digits2 (n div 100) @ digits2 n"

definition digits6 :: "int \<Rightarrow> string" where
  "digits6 n = digits2 (n div 10000) @ digits4 n"

definition isoYear :: "int \<Rightarrow> string" where
  "isoYear y =
     (if 0 \<le> y \<and> y \<le> 9999 then digits4 y
      else if y < 0 then CHR ''-'' # digits6 (- y)
      else CHR ''+'' # digits6 y)"

definition toISODate :: "instant \<Rightarrow> string" where
  "toISODate t =
     (case civilFromDays (utcDay t) of
        (y, m, d) \<Rightarrow> isoYear y @ ''-'' @ digits2 m @ ''-'' @ digits2 d)"

text \<open>\<open>formatDateString(date)\<close>; the caller passes \<open>new Date()\<close> where the source defaults it.\<close>

definition formatDateString :: "instant \<Rightarrow> string" where
  "formatDateString date = toISODate date"

text \<open>
  \<open>isToday\<close> compares \<open>toDateString()\<close>, the calendar date in the server's local zone, of
  the date and of the current instant. The zone is taken to have a constant offset \<open>tz\<close>
  (milliseconds east of UTC), so that \<open>setDate(getDate() - 1)\<close> moves an instant back by
  exactly one day.
\<close>

definition localDay :: "int \<Rightarrow> instant \<Rightarrow> int" where
  "localDay tz t = (t + tz) div msPerDay"

definition isToday :: "int \<Rightarrow> instant \<Rightarrow> instant \<Rightarrow> bool" where
  "isToday tz now date = (localDay tz date = localDay tz now)"

definition previousDay :: "instant \<Rightarrow> instant" where
  "previousDay checkDate = checkDate - msPerDay"

section \<open>Strings (String.prototype.trim, split, utils/helpers.js)\<close>

text \<open>White space as \<open>trim\<close> and the pattern \<open>\s\<close> see it, on one-byte characters.\<close>

definition isSpace :: "char \<Rightarrow> bool" where
  "isSpace c = ((of_char c :: nat) \<in> {9, 10, 11, 12, 13, 32, 160})"

definition trim :: "string \<Rightarrow> string" where
  "trim s = rev (dropWhile isSpace (rev (dropWhile isSpace s)))"

text \<open>
  \<open>s.split(/\s+/)\<close>: the pieces between the maximal runs of white space; a run at either
  end leaves an empty piece there, and a string without white space is its only piece.
  The flag says that the character before was white space of the run being skipped.
\<close>

fun splitSpaces :: "bool \<Rightarrow> string \<Rightarrow> string \<Rightarrow> string list" where
  "splitSpaces inRun piece [] = [piece]"
| "splitSpaces inRun piece (c # cs) =
     (if isSpace c
      then (if inRun then splitSpaces True piece cs else piece # splitSpaces True [] cs)
      else splitSpaces False (piece @ [c]) cs)"

definition split_ws :: "string \<Rightarrow> string list" where
  "split_ws s = splitSpaces False [] s"

text \<open>
  The white-space separated tokens of a string, as the specification words it: the maximal
  runs of characters that are not white space.
\<close>

fun tokensFrom :: "string \<Rightarrow> string \<Rightarrow> string list" where
  "tokensFrom piece [] = (if piece = [] then [] else [piece])"
| "tokensFrom piece (c # cs) =
     (if isSpace c
      then (if piece = [] then tokensFrom [] cs else piece # tokensFrom [] cs)
      else tokensFrom (piece @ [c]) cs)"

definition tokens :: "string \<Rightarrow> string list" where
  "tokens s = tokensFrom [] s"

text \<open>\<open>sanitizeInput\<close> on a string: trim, drop the angle brackets, keep 2000 characters.\<close>

definition sanitizeInput :: "string \<Rightarrow> string" where
  "sanitizeInput input =
     take 2000 (filter (\<lambda>c. c \<noteq> CHR ''<'' \<and> c \<noteq> CHR ''>'') (trim input))"

section \<open>Journal entries (models/JournalEntry.js)\<close>

record journalEntry =
  entry_id :: oid
  userId :: oid
  content :: string
  wordCount :: nat
  characterCount :: nat
  writingDuration :: rat
  entryDate :: instant
  dateString :: string
  mood :: string
  tags :: "string list"
  metadata_ipAddress :: string
  metadata_userAgent :: "string option"
  metadata_timezone :: string

type_synonym journal = "journalEntry list"

definition moods :: "string list" where
  "moods = [''very-happy'', ''happy'', ''neutral'', ''sad'', ''very-sad'']"

text \<open>
  The \<open>pre('save')\<close> hook. \<open>contentModified\<close> is \<open>this.isModified('content')\<close> and
  \<open>dateModifiedOrNew\<close> is \<open>this.isModified('entryDate') || this.isNew\<close>.
\<close>

definition preSave :: "bool \<Rightarrow> bool \<Rightarrow> journalEntry \<Rightarrow> journalEntry" where
  "preSave contentModified dateModifiedOrNew doc =
     (let d1 = (if contentModified
                then doc\<lparr>characterCount := length (content doc),
                         wordCount := (if trim (content doc) \<noteq> []
                                       then length (split_ws (trim (content doc))) else 0)\<rparr>
                else doc);
          d2 = (if dateModifiedOrNew
                then d1\<lparr>dateString := toISODate (entryDate d1)\<rparr>
                else d1)
      in d2)"

text \<open>The schema's validators, run by \<open>save\<close> before the hook.\<close>

definition schemaValid :: "journalEntry \<Rightarrow> bool" where
  "schemaValid doc =
     (content doc \<noteq> [] \<and> length (content doc) \<le> 2000
      \<and> writingDuration doc \<le> 60
      \<and> dateString doc \<noteq> []
      \<and> mood doc \<in> set moods
      \<and> (\<forall>t \<in> set (tags doc). length t \<le> 50))"

datatype save_error = ValidationError | DuplicateKey

text \<open>
  \<open>save\<close> of a new document: validation, the hook, then the insert, which the unique index
  on \<open>(userId, dateString)\<close> refuses with error code 11000 when the pair is taken.
\<close>

definition save :: "journal \<Rightarrow> journalEntry \<Rightarrow> save_error + (journalEntry \<times> journal)" where
  "save j doc =
     (if \<not> schemaValid doc then Inl ValidationError
      else let d = preSave True True doc in
        if \<exists>e \<in> set j. userId e = userId d \<and> dateString e = dateString d
        then Inl DuplicateKey
        else Inr (d, j @ [d]))"

definition findOneByDay :: "journal \<Rightarrow> oid \<Rightarrow> string \<Rightarrow> journalEntry option" where
  "findOneByDay j uid ds = find (\<lambda>e. userId e = uid \<and> dateString e = ds) j"

text \<open>A fresh object id for a new document.\<close>

definition newObjectId :: "journal \<Rightarrow> oid" where
  "newObjectId j = Suc (fold max (map entry_id j) 0)"

section \<open>Journal controller (routes/journal.js, controllers/journalController.js)\<close>

text \<open>
  A create request: the authenticated identity, the JSON body and the headers the handler
  reads. The duration is a JSON number, taken as an exact rational.
\<close>

record createRequest =
  req_userId :: oid
  body_content :: string
  body_writingDuration :: rat
  body_mood :: "string option"
  body_tags :: "string list option"
  req_ip :: string
  header_userAgent :: "string option"
  header_timezone :: "string option"

text \<open>
  \<open>createEntryValidation\<close>: the messages of the failing chains, and the request with the
  chains' sanitizers applied (\<open>trim\<close> on the content and on each tag).
\<close>

definition createEntryValidation :: "createRequest \<Rightarrow> string list \<times> createRequest" where
  "createEntryValidation req =
     (let c = trim (body_content req);
          ts = map_option (map trim) (body_tags req);
          e1 = (if 1 \<le> length c \<and> length c \<le> 2000 then []
                else [''Content must be between 1 and 2000 characters'']);
          e2 = (if 1 \<le> body_writingDuration req \<and> body_writingDuration req \<le> 60 then []
                else [''Writing duration must be between 1 and 60 seconds'']);
          e3 = (case body_mood req of
                  None \<Rightarrow> []
                | Some m \<Rightarrow> if m \<in> set moods then [] else [''Invalid mood value'']);
          e4 = (case ts of
                  None \<Rightarrow> []
                | Some l \<Rightarrow>
                    concat (map (\<lambda>t. if 1 \<le> length t \<and> length t \<le> 50 then []
                                     else [''Each tag must be between 1 and 50 characters'']) l))
      in (e1 @ e2 @ e3 @ e4, req\<lparr>body_content := c, body_tags := ts\<rparr>))"

datatype create_response =
    ValidationFailed "string list"
  | ContentRequired
  | InvalidWritingDuration
  | EntryAlreadyExists
  | Created journalEntry
  | FailedToCreateEntry

text \<open>The status line of each response of \<open>createEntry\<close>.\<close>

definition create_status :: "create_response \<Rightarrow> nat" where
  "create_status r =
     (case r of
        ValidationFailed ds \<Rightarrow> 400
      | ContentRequired \<Rightarrow> 400
      | InvalidWritingDuration \<Rightarrow> 400
      | EntryAlreadyExists \<Rightarrow> 400
      | Created e \<Rightarrow> 201
      | FailedToCreateEntry \<Rightarrow> 500)"

text \<open>
  \<open>new JournalEntry({...})\<close> as \<open>createEntry\<close> builds it; the schema's setter trims the
  content, and the counts start at their defaults.
\<close>

definition newJournalEntry ::
  "oid \<Rightarrow> createRequest \<Rightarrow> string \<Rightarrow> instant \<Rightarrow> string \<Rightarrow> journalEntry" where
  "newJournalEntry i req sanitizedContent now today =
     \<lparr>entry_id = i,
      userId = req_userId req,
      content = trim sanitizedContent,
      wordCount = 0,
      characterCount = 0,
      writingDuration = body_writingDuration req,
      entryDate = now,
      dateString = today,
      mood = (case body_mood req of None \<Rightarrow> ''neutral''
              | Some m \<Rightarrow> if m = [] then ''neutral'' else m),
      tags = (case body_tags req of None \<Rightarrow> []
              | Some ts \<Rightarrow> filter (\<lambda>t. t \<noteq> []) (map sanitizeInput ts)),
      metadata_ipAddress = req_ip req,
      metadata_userAgent = header_userAgent req,
      metadata_timezone = (case header_timezone req of None \<Rightarrow> ''UTC''
                           | Some z \<Rightarrow> if z = [] then ''UTC'' else z)\<rparr>"

text \<open>
  \<open>createEntry\<close> reads the clock twice: \<open>now1\<close> for \<open>formatDateString()\<close> of the
  existence check, \<open>now2\<close> for \<open>entryDate: new Date()\<close>. It reads the collection twice as
  well, at the check (\<open>jCheck\<close>) and at the save (\<open>j\<close>); other requests may have written in
  between. The result is the response and the collection after the request.
\<close>

definition createEntryAt ::
  "journal \<Rightarrow> journal \<Rightarrow> instant \<Rightarrow> instant \<Rightarrow> createRequest \<Rightarrow> create_response \<times> journal" where
  "createEntryAt jCheck j now1 now2 request =
     (case createEntryValidation request of
        (errors, req) \<Rightarrow>
          if errors \<noteq> [] then (ValidationFailed errors, j)
          else let sanitizedContent = sanitizeInput (body_content req) in
            if sanitizedContent = [] \<or> trim sanitizedContent = [] then (ContentRequired, j)
            else if body_writingDuration req > 60 then (InvalidWritingDuration, j)
            else let today = formatDateString now1 in
              (case findOneByDay jCheck (req_userId req) today of
                 Some existingEntry \<Rightarrow> (EntryAlreadyExists, j)
               | None \<Rightarrow>
                   (case save j (newJournalEntry (newObjectId j) req sanitizedContent now2 today) of
                      Inl DuplicateKey \<Rightarrow> (EntryAlreadyExists, j)
                    | Inl ValidationError \<Rightarrow> (FailedToCreateEntry, j)
                    | Inr (saved, j') \<Rightarrow> (Created saved, j'))))"

text \<open>One request on its own: the check and the save see the same collection.\<close>

definition createEntry ::
  "journal \<Rightarrow> instant \<Rightarrow> instant \<Rightarrow> createRequest \<Rightarrow> create_response \<times> journal" where
  "createEntry j now1 now2 request = createEntryAt j j now1 now2 request"

text \<open>A sequence of create requests, each with its two clock readings.\<close>

fun createEntries :: "journal \<Rightarrow> (instant \<times> instant \<times> createRequest) list \<Rightarrow> journal" where
  "createEntries j [] = j"
| "createEntries j ((now1, now2, request) # rs) =
     createEntries (snd (createEntry j now1 now2 request)) rs"




text \<open>
  The streak loop of \<open>getStats\<close>. The state is \<open>checkDate\<close> and \<open>currentStreak\<close>; the result
  is the streak together with the number of \<open>findOne\<close> queries made, one per day examined.
\<close>

function streakLoop ::
  "journal \<Rightarrow> oid \<Rightarrow> int \<Rightarrow> instant \<Rightarrow> instant \<Rightarrow> nat \<Rightarrow> nat \<Rightarrow> nat \<times> nat" where
  "streakLoop j uid tz now checkDate currentStreak queries =
     (case findOneByDay j uid (formatDateString checkDate) of
        None \<Rightarrow>
          if isToday tz now checkDate
          then streakLoop j uid tz now (previousDay checkDate) currentStreak (queries + 1)
          else (currentStreak, queries + 1)
      | Some hasEntry \<Rightarrow>
          if currentStreak + 1 \<ge> 365 then (currentStreak + 1, queries + 1)
          else streakLoop j uid tz now (previousDay checkDate) (currentStreak + 1) (queries + 1))"
  by pat_completeness auto
termination
proof (relation "measure (\<lambda>(j, uid, tz, now, checkDate, currentStreak, queries).
          2 * (365 - currentStreak)
          + (if localDay tz checkDate \<ge> localDay tz now then 1 else 0))")
  show "wf (measure (\<lambda>(j, uid, tz, now, checkDate, currentStreak, queries).
          2 * (365 - currentStreak)
          + (if localDay tz checkDate \<ge> localDay tz now then 1 else 0)))"
    by simp
next
  fix j :: journal and uid :: oid and tz now checkDate :: int and currentStreak queries :: nat
  assume "isToday tz now checkDate"
  then have "localDay tz (previousDay checkDate) < localDay tz now"
    by (simp add: isToday_def localDay_def previousDay_def msPerDay_def)
  moreover have "localDay tz checkDate \<ge> localDay tz now"
    using \<open>isToday tz now checkDate\<close> by (simp add: isToday_def)
  ultimately show "((j, uid, tz, now, previousDay checkDate, currentStreak, queries + 1),
           (j, uid, tz, now, checkDate, currentStreak, queries))
        \<in> measure (\<lambda>(j, uid, tz, now, checkDate, currentStreak, queries).
          2 * (365 - currentStreak)
          + (if localDay tz checkDate \<ge> localDay tz now then 1 else 0))"
    by simp
next
  fix j :: journal and uid :: oid and tz now checkDate :: int and currentStreak queries :: nat
  assume "\<not> 365 \<le> currentStreak + 1"
  moreover have "localDay tz (previousDay checkDate) \<le> localDay tz checkDate"
    by (simp add: localDay_def previousDay_def msPerDay_def zdiv_mono1)
  ultimately show "((j, uid, tz, now, previousDay checkDate, currentStreak + 1, queries + 1),
           (j, uid, tz, now, checkDate, currentStreak, queries))
        \<in> measure (\<lambda>(j, uid, tz, now, checkDate, currentStreak, queries).
          2 * (365 - currentStreak)
          + (if localDay tz checkDate \<ge> localDay tz now then 1 else 0))"
    by auto
qed

declare streakLoop.simps [simp del]

definition currentStreak :: "journal \<Rightarrow> oid \<Rightarrow> int \<Rightarrow> instant \<Rightarrow> nat" where
  "currentStreak j uid tz now = fst (streakLoop j uid tz now now 0 0)"



section \<open>Account statistics (controllers/userController.js)\<close>



text \<open>The first entry by \<open>entryDate\<close> ascending; only its date is used.\<close>

definition firstEntryDateOf :: "journal \<Rightarrow> oid \<Rightarrow> instant option" where
  "firstEntryDateOf j uid =
     (case filter (\<lambda>e. userId e = uid) j of
        [] \<Rightarrow> None
      | e # es \<Rightarrow> Some (fold min (map entryDate es) (entryDate e)))"


section \<open>The one-entry-per-day invariant\<close>

text \<open>No two entries of the collection share the pair of owner and day key.\<close>

definition uniquePerDay :: "journal \<Rightarrow> bool" where
  "uniquePerDay j = distinct (map (\<lambda>e. (userId e, dateString e)) j)"

section \<open>Example data\<close>

definition example_env :: env where
  "example_env = \<lparr>JWT_ACCESS_SECRET = ''access-secret'', JWT_REFRESH_SECRET = ''refresh-secret''\<rparr>"

definition alice :: user where
  "alice = \<lparr>user_id = 1, email = ''a@b.com'', mfaEnabled = False, mfaBackupCodes = [],
       refreshTokens = [], loginAttempts = 0, lockUntil = None, lastLogin = None\<rparr>"

text \<open>A request made on 3 November 2026 at 10:00 UTC, and the entry it creates.\<close>

definition morning :: instant where
  "morning = 1793700000000"

definition writeRequest :: createRequest where
  "writeRequest = \<lparr>req_userId = 1, body_content = ''  Hello  brave new world '',
      body_writingDuration = 45, body_mood = Some ''happy'', body_tags = Some [''daily ''],
      req_ip = ''127.0.0.1'', header_userAgent = None, header_timezone = Some ''Asia/Tokyo''\<rparr>"

definition firstEntry :: journalEntry where
  "firstEntry = \<lparr>entry_id = 1, userId = 1, content = ''Hello  brave new world'',
      wordCount = 4, characterCount = 22, writingDuration = 45, entryDate = 1793700000000,
      dateString = ''2026-11-03'', mood = ''happy'', tags = [''daily''],
      metadata_ipAddress = ''127.0.0.1'', metadata_userAgent = None,
      metadata_timezone = ''Asia/Tokyo''\<rparr>"




section \<open>Verified properties: identity and tokens\<close>

subsection \<open>Collection and login lemmas\<close>

lemma find_saveUser:
  "u \<in> set us \<Longrightarrow> user_id u = user_id u' \<Longrightarrow> findById (saveUser us u') (user_id u') = Some u'"
  unfolding findById_def saveUser_def
  by (induction us) auto

lemma findOneByEmail_mem: "findOneByEmail us m = Some u \<Longrightarrow> u \<in> set us"
  unfolding findOneByEmail_def by (induction us) (auto split: if_splits)

lemma findById_mem: "findById us i = Some u \<Longrightarrow> u \<in> set us \<and> user_id u = i"
  unfolding findById_def by (induction us) (auto split: if_splits)

lemma issueAfterLogin_eq:
  "issueAfterLogin e now u =
     (LoginSuccessful (generateAccessToken e now (user_id u)) (generateRefreshToken e now (user_id u)),
      u\<lparr>loginAttempts := 0, lockUntil := None, lastLogin := Some now,
        refreshTokens := filter (\<lambda>tokenObj. isActive tokenObj \<and> expiresAt tokenObj > now) (refreshTokens u) @
           [\<lparr>tok = generateRefreshToken e now (user_id u), createdAt = now,
             expiresAt = getRefreshTokenExpiry now, isActive = True\<rparr>]\<rparr>)"
  by (simp add: issueAfterLogin_def resetLoginAttempts_def cleanupRefreshTokens_def generateTokenPair_def Let_def)

lemma issueAfterLogin_fields:
  "issueAfterLogin e now u = (r, u') \<Longrightarrow>
     user_id u' = user_id u \<and> loginAttempts u' = 0 \<and> lockUntil u' = None"
  by (auto simp: issueAfterLogin_eq)

lemma login_success_issue:
  assumes "findOneByEmail us mail = Some w"
      and "login e now us mail pw mfaCode verified = (LoginSuccessful a r, us')"
  shows "\<exists>v v'. user_id v = user_id w \<and> issueAfterLogin e now v = (LoginSuccessful a r, v')
      \<and> us' = saveUser us v'"
proof -
  have step: "\<exists>v'. issueAfterLogin e now v = (LoginSuccessful a r, v') \<and> us' = saveUser us v'"
    if "(case issueAfterLogin e now v of (x, u') \<Rightarrow> (x, saveUser us u'))
          = (LoginSuccessful a r, us')" for v
    using that by (auto split: prod.splits)
  from assms have "(case issueAfterLogin e now w of (x, u') \<Rightarrow> (x, saveUser us u'))
          = (LoginSuccessful a r, us')
      \<or> (\<exists>i. (case issueAfterLogin e now
                    (w\<lparr>mfaBackupCodes :=
                         (mfaBackupCodes w)[i := (mfaBackupCodes w ! i)\<lparr>used := True\<rparr>]\<rparr>) of
                  (x, u') \<Rightarrow> (x, saveUser us u')) = (LoginSuccessful a r, us'))"
    unfolding login_def Let_def by (simp split: if_splits option.splits) blast
  then show ?thesis
  proof
    assume "(case issueAfterLogin e now w of (x, u') \<Rightarrow> (x, saveUser us u'))
          = (LoginSuccessful a r, us')"
    from step[OF this] obtain v' where
      "issueAfterLogin e now w = (LoginSuccessful a r, v')" "us' = saveUser us v'" by blast
    then show ?thesis by (intro exI[of _ w] exI[of _ v']) simp
  next
    assume "\<exists>i. (case issueAfterLogin e now
                    (w\<lparr>mfaBackupCodes :=
                         (mfaBackupCodes w)[i := (mfaBackupCodes w ! i)\<lparr>used := True\<rparr>]\<rparr>) of
                  (x, u') \<Rightarrow> (x, saveUser us u')) = (LoginSuccessful a r, us')"
    then obtain i where "(case issueAfterLogin e now
                    (w\<lparr>mfaBackupCodes :=
                         (mfaBackupCodes w)[i := (mfaBackupCodes w ! i)\<lparr>used := True\<rparr>]\<rparr>) of
                  (x, u') \<Rightarrow> (x, saveUser us u')) = (LoginSuccessful a r, us')" by blast
    from step[OF this] obtain v' where
      "issueAfterLogin e now
         (w\<lparr>mfaBackupCodes := (mfaBackupCodes w)[i := (mfaBackupCodes w ! i)\<lparr>used := True\<rparr>]\<rparr>)
         = (LoginSuccessful a r, v')" "us' = saveUser us v'" by blast
    then show ?thesis
      by (intro exI[of _ "w\<lparr>mfaBackupCodes :=
             (mfaBackupCodes w)[i := (mfaBackupCodes w ! i)\<lparr>used := True\<rparr>]\<rparr>"] exI[of _ v']) simp
  qed
qed

lemma login_success_resets:
  assumes "findOneByEmail us mail = Some w"
      and "login e now us mail pw mfaCode verified = (LoginSuccessful a r, us')"
  shows "\<exists>w'. findById us' (user_id w) = Some w' \<and> loginAttempts w' = 0 \<and> lockUntil w' = None"
proof -
  have mem: "w \<in> set us" using assms(1) by (rule findOneByEmail_mem)
  from login_success_issue[OF assms] obtain v v' where v: "user_id v = user_id w" "us' = saveUser us v'"
    and iv: "issueAfterLogin e now v = (LoginSuccessful a r, v')" by blast
  have f: "user_id v' = user_id w" "loginAttempts v' = 0" "lockUntil v' = None"
    using issueAfterLogin_fields[OF iv] v(1) by auto
  have "findById us' (user_id v') = Some v'"
    using find_saveUser[OF mem, of v'] f(1) v(2) by simp
  then show ?thesis using f by auto
qed

lemma findIndex_Some:
  "findIndex P xs = Some i \<Longrightarrow> i < length xs \<and> P (xs ! i)"
  by (induction xs arbitrary: i) (auto split: if_splits)

lemma findIndex_None: "findIndex P xs = None \<longleftrightarrow> (\<forall>x\<in>set xs. \<not> P x)"
  by (induction xs) auto

lemma deactivate_unique:
  "findIndex (\<lambda>x. tok x = t) xs = Some i \<Longrightarrow> length (filter (\<lambda>x. tok x = t) xs) \<le> 1 \<Longrightarrow>
   y \<in> set (xs[i := (xs ! i)\<lparr>isActive := False\<rparr>]) \<Longrightarrow> tok y = t \<Longrightarrow> \<not> isActive y"
proof (induction xs arbitrary: i)
  case Nil then show ?case by simp
next
  case (Cons x xs)
  show ?case
  proof (cases "tok x = t")
    case True
    with Cons.prems have i0: "i = 0" and none: "filter (\<lambda>x. tok x = t) xs = []" by auto
    from none have "\<forall>z\<in>set xs. tok z \<noteq> t" by (simp add: filter_empty_conv)
    with Cons.prems i0 show ?thesis by auto
  next
    case False
    with Cons.prems obtain j where j: "findIndex (\<lambda>x. tok x = t) xs = Some j" "i = Suc j" by auto
    with Cons.prems False Cons.IH[OF j(1)] show ?thesis by auto
  qed
qed


lemma refresh_of_issued:
  assumes "findById us (user_id u) = Some u"
      and "\<lparr>tok = generateRefreshToken e now (user_id u), createdAt = c,
             expiresAt = getRefreshTokenExpiry now, isActive = True\<rparr> \<in> set (refreshTokens u)"
      and "now' div 1000 < now div 1000 + 604800" and "now' < now + 604800000"
  shows "refreshToken e now' us (Some (generateRefreshToken e now (user_id u)))
         = NewAccessToken (generateAccessToken e now' (user_id u))"
proof -
  let ?r = "generateRefreshToken e now (user_id u)"
  have v: "verifyRefreshToken e now' ?r = Inr (user_id u)"
    using assms(3) by (simp add: verifyRefreshToken_def generateRefreshToken_def jwt_sign_def jwt_verify_def)
  have "find (\<lambda>tokenObj. tok tokenObj = ?r \<and> isActive tokenObj \<and> expiresAt tokenObj > now') (refreshTokens u) \<noteq> None"
    unfolding find_None_iff using assms(2,4)
    by (force simp: getRefreshTokenExpiry_def)
  then show ?thesis using v assms(1)
    by (auto simp: refreshToken_def split: option.splits)
qed


lemma refresh_fails_after_logout:
  assumes u: "findById us uid = Some u"
      and one: "length (filter (\<lambda>x. tok x = t) (refreshTokens u)) \<le> 1"
      and v: "verifyRefreshToken e now t = Inr uid"
  shows "refreshToken e now (logout us uid (Some t)) (Some t) = InvalidOrExpiredRefreshToken"
proof (cases "findIndex (\<lambda>x. tok x = t) (refreshTokens u)")
  case None
  then have "find (\<lambda>x. tok x = t \<and> isActive x \<and> expiresAt x > now) (refreshTokens u) = None"
    by (auto simp: findIndex_None find_None_iff)
  with None u v show ?thesis by (simp add: logout_def refreshToken_def)
next
  case (Some i)
  let ?u' = "u\<lparr>refreshTokens := (refreshTokens u)[i := (refreshTokens u ! i)\<lparr>isActive := False\<rparr>]\<rparr>"
  have lo: "logout us uid (Some t) = saveUser us ?u'"
    using u Some by (simp add: logout_def)
  have mem: "u \<in> set us" "user_id u = uid" using findById_mem[OF u] by auto
  have fb: "findById (saveUser us ?u') uid = Some ?u'"
    using find_saveUser[OF mem(1), of ?u'] mem(2) by simp
  have "find (\<lambda>x. tok x = t \<and> isActive x \<and> expiresAt x > now) (refreshTokens ?u') = None"
    using deactivate_unique[OF Some one] by (auto simp: find_None_iff)
  with lo fb v show ?thesis by (simp add: refreshToken_def)
qed

lemma login_then_refresh:
  assumes w: "findOneByEmail us mail = Some w"
      and l: "login e now us mail pw mfaCode verified = (LoginSuccessful a r, us')"
      and t: "now' div 1000 < now div 1000 + 604800" "now' < now + 604800000"
  shows "refreshToken e now' us' (Some r) = NewAccessToken (generateAccessToken e now' (user_id w))"
proof -
  from login_success_issue[OF w l] obtain v v' where v: "user_id v = user_id w" "us' = saveUser us v'"
    and iv: "issueAfterLogin e now v = (LoginSuccessful a r, v')" by blast
  have r: "r = generateRefreshToken e now (user_id v')" and id: "user_id v' = user_id w"
    using iv v(1) by (auto simp: issueAfterLogin_eq)
  have rec: "\<lparr>tok = generateRefreshToken e now (user_id v'), createdAt = now,
             expiresAt = getRefreshTokenExpiry now, isActive = True\<rparr> \<in> set (refreshTokens v')"
    using iv by (auto simp: issueAfterLogin_eq)
  have fb: "findById us' (user_id v') = Some v'"
    using find_saveUser[OF findOneByEmail_mem[OF w], of v'] id v(2) by simp
  show ?thesis using refresh_of_issued[OF fb rec t] r id by simp
qed

lemma access_token_verifies:
  "now' div 1000 < now div 1000 + 900 \<Longrightarrow>
   jwt_verify (generateAccessToken e now i) (JWT_ACCESS_SECRET e) now' = Inr i"
  by (simp add: generateAccessToken_def jwt_sign_def jwt_verify_def)

subsection \<open>Lockout policy\<close>

lemma failedAttempts_four:
  "failedAttempts [t1, t2, t3, t4] (resetLoginAttempts u) =
     u\<lparr>loginAttempts := 4, lockUntil := None\<rparr>"
  by (simp add: failedAttempts_def incLoginAttempts_def resetLoginAttempts_def isLocked_def)

text \<open>
  C3. Starting from a reset (or fresh) identity, the first four failures leave the account
  unlocked and the fifth sets lock-until to its instant plus two hours; the account is then
  locked exactly at the instants before lock-until. A failure recorded after the lock
  expired restarts the counter at 1 and clears the lock. Resetting puts the counter at zero
  and clears the lock, and every successful login leaves the identity so.
\<close>

theorem lockout_after_five_failures:
  "\<not> isLocked t (failedAttempts [t1, t2, t3, t4] (resetLoginAttempts u))
   \<and> lockUntil (failedAttempts [t1, t2, t3, t4, t5] (resetLoginAttempts u))
       = Some (t5 + 7200000)
   \<and> loginAttempts (failedAttempts [t1, t2, t3, t4, t5] (resetLoginAttempts u)) = 5
   \<and> (isLocked t (failedAttempts [t1, t2, t3, t4, t5] (resetLoginAttempts u))
        \<longleftrightarrow> t < t5 + 7200000)
   \<and> (isLocked t v \<longleftrightarrow> (\<exists>l. lockUntil v = Some l \<and> t < l))
   \<and> (\<forall>l. lockUntil v = Some l \<and> l < now \<longrightarrow>
         loginAttempts (incLoginAttempts now v) = 1
         \<and> lockUntil (incLoginAttempts now v) = None)
   \<and> loginAttempts (resetLoginAttempts v) = 0
   \<and> lockUntil (resetLoginAttempts v) = None
   \<and> \<not> isLocked t (resetLoginAttempts v)
   \<and> (findOneByEmail us mail = Some w
        \<and> login e now us mail pw mfaCode verified = (LoginSuccessful a r, us') \<longrightarrow>
        (\<exists>w'. findById us' (user_id w) = Some w' \<and> loginAttempts w' = 0
              \<and> lockUntil w' = None))"
proof -
  have five: "failedAttempts [t1, t2, t3, t4, t5] (resetLoginAttempts u)
      = u\<lparr>loginAttempts := 5, lockUntil := Some (t5 + 7200000)\<rparr>"
    by (simp add: failedAttempts_def incLoginAttempts_def resetLoginAttempts_def isLocked_def)
  have locked: "isLocked t v \<longleftrightarrow> (\<exists>l. lockUntil v = Some l \<and> t < l)" for v
    by (simp add: isLocked_def split: option.splits)
  have expired: "\<forall>l. lockUntil v = Some l \<and> l < now \<longrightarrow>
         loginAttempts (incLoginAttempts now v) = 1
         \<and> lockUntil (incLoginAttempts now v) = None"
    by (simp add: incLoginAttempts_def)
  have reset: "loginAttempts (resetLoginAttempts v) = 0" "lockUntil (resetLoginAttempts v) = None"
    by (simp_all add: resetLoginAttempts_def)
  show ?thesis
    using five locked expired reset login_success_resets[of us mail w e now pw mfaCode verified a r us']
    by (simp add: failedAttempts_four)
qed

theorem lockout_after_five_failures_witness:
  "lockUntil (alice\<lparr>loginAttempts := 7, lockUntil := Some 10\<rparr>) = Some 10
   \<and> (10::int) < 20
   \<and> loginAttempts (incLoginAttempts 20 (alice\<lparr>loginAttempts := 7, lockUntil := Some 10\<rparr>)) = 1
   \<and> lockUntil (incLoginAttempts 20 (alice\<lparr>loginAttempts := 7, lockUntil := Some 10\<rparr>)) = None
   \<and> findOneByEmail [alice\<lparr>loginAttempts := 7, lockUntil := Some 10\<rparr>] ''a@b.com''
        = Some (alice\<lparr>loginAttempts := 7, lockUntil := Some 10\<rparr>)
   \<and> fst (login example_env 20 [alice\<lparr>loginAttempts := 7, lockUntil := Some 10\<rparr>]
             ''a@b.com'' True None False)
        = LoginSuccessful (Signed 1 0 900 ''access-secret'') (Signed 1 0 604800 ''refresh-secret'')
   \<and> (\<exists>w'. findById (snd (login example_env 20 [alice\<lparr>loginAttempts := 7, lockUntil := Some 10\<rparr>]
                             ''a@b.com'' True None False)) 1 = Some w'
            \<and> loginAttempts w' = 0 \<and> lockUntil w' = None)"
proof -
  let ?v = "alice\<lparr>loginAttempts := 7, lockUntil := Some 10\<rparr>"
  let ?res = "login example_env 20 [?v] ''a@b.com'' True None False"
  have f: "findOneByEmail [?v] ''a@b.com'' = Some ?v"
    by (simp add: findOneByEmail_def alice_def)
  have l: "fst ?res
        = LoginSuccessful (Signed 1 0 900 ''access-secret'') (Signed 1 0 604800 ''refresh-secret'')"
    by (simp add: login_def findOneByEmail_def alice_def example_env_def isLocked_def
          issueAfterLogin_def resetLoginAttempts_def cleanupRefreshTokens_def
          generateTokenPair_def generateAccessToken_def generateRefreshToken_def jwt_sign_def
          getRefreshTokenExpiry_def saveUser_def Let_def)
  have l': "?res = (LoginSuccessful (Signed 1 0 900 ''access-secret'')
                       (Signed 1 0 604800 ''refresh-secret''), snd ?res)"
    using l by (simp add: prod_eq_iff)
  have id: "user_id ?v = 1" by (simp add: alice_def)
  show ?thesis
    using lockout_after_five_failures
      [where v = ?v and now = 20 and us = "[?v]" and mail = "''a@b.com''" and w = ?v
         and e = example_env and pw = True and mfaCode = None and verified = False
         and a = "Signed 1 0 900 ''access-secret''"
         and r = "Signed 1 0 604800 ''refresh-secret''" and us' = "snd ?res"]
      f l l' id
    by simp
qed

subsection \<open>Token renewal and revocation\<close>

text \<open>
  C4. The claim holds whenever the identity has one record per token string
  (\<open>login_then_refresh\<close>, \<open>access_token_verifies\<close>, \<open>refresh_fails_after_logout\<close>),
  and fails otherwise: two logins of one identity within the same second sign the same
  payload, so both are handed the same refresh token and the identity holds two records of
  it. \<open>logout\<close> deactivates the first record only, and the token it was meant to revoke
  still renews access.
\<close>

theorem logout_leaves_twin_token_renewable:
  "fst (login example_env 5000 [alice] ''a@b.com'' True None False)
     = LoginSuccessful (Signed 1 5 905 ''access-secret'') (Signed 1 5 604805 ''refresh-secret'')
   \<and> fst (login example_env 5400
           (snd (login example_env 5000 [alice] ''a@b.com'' True None False))
           ''a@b.com'' True None False)
     = LoginSuccessful (Signed 1 5 905 ''access-secret'') (Signed 1 5 604805 ''refresh-secret'')
   \<and> refreshToken example_env 5800
        (logout (snd (login example_env 5400
                   (snd (login example_env 5000 [alice] ''a@b.com'' True None False))
                   ''a@b.com'' True None False))
           1 (Some (Signed 1 5 604805 ''refresh-secret'')))
        (Some (Signed 1 5 604805 ''refresh-secret''))
     = NewAccessToken (Signed 1 5 905 ''access-secret'')"
  by (simp add: login_def logout_def refreshToken_def alice_def example_env_def
        findOneByEmail_def findById_def isLocked_def issueAfterLogin_def resetLoginAttempts_def
        cleanupRefreshTokens_def generateTokenPair_def generateAccessToken_def
        generateRefreshToken_def jwt_sign_def getRefreshTokenExpiry_def saveUser_def
        verifyRefreshToken_def jwt_verify_def Let_def)

section \<open>Verified properties: journal\<close>

subsection \<open>White space, words and trimming\<close>

lemma split_tokens_aux:
  "(\<forall>piece. piece \<noteq> [] \<longrightarrow>
      splitSpaces False piece s
        = tokensFrom piece s @ (if s \<noteq> [] \<and> isSpace (last s) then [[]] else []))
   \<and> splitSpaces True [] s
        = tokensFrom [] s @ (if s = [] \<or> isSpace (last s) then [[]] else [])"
  by (induction s) auto

lemma split_ws_tokens:
  assumes "s \<noteq> []" "\<not> isSpace (hd s)" "\<not> isSpace (last s)"
  shows "split_ws s = tokens s"
proof -
  from assms obtain c cs where s: "s = c # cs" by (cases s) auto
  with assms have c: "\<not> isSpace c" by simp
  have "splitSpaces False [c] cs = tokensFrom [c] cs @ (if cs \<noteq> [] \<and> isSpace (last cs) then [[]] else [])"
    using split_tokens_aux[of cs] by simp
  moreover have "\<not> (cs \<noteq> [] \<and> isSpace (last cs))" using assms(3) s by auto
  ultimately show ?thesis using c s by (simp add: split_ws_def tokens_def)
qed

lemma dropWhile_hd: "dropWhile P xs \<noteq> [] \<Longrightarrow> \<not> P (hd (dropWhile P xs))"
  by (metis hd_dropWhile)

lemma trim_ends:
  "trim s \<noteq> [] \<Longrightarrow> \<not> isSpace (hd (trim s)) \<and> \<not> isSpace (last (trim s))"
proof -
  assume ne: "trim s \<noteq> []"
  let ?a = "dropWhile isSpace s"
  let ?b = "dropWhile isSpace (rev ?a)"
  have b: "?b \<noteq> []" using ne by (simp add: trim_def)
  have l: "\<not> isSpace (hd ?b)" using b by (rule dropWhile_hd)
  have last: "last (trim s) = hd ?b" using b by (simp add: trim_def last_rev)
  have a: "?a \<noteq> []" using b by (metis dropWhile.simps(1) rev.simps(1))
  have ha: "\<not> isSpace (hd ?a)" using a by (rule dropWhile_hd)
  have "hd (trim s) = last ?b" using b by (simp add: trim_def hd_rev)
  also have "\<dots> = last (rev ?a)" using b by (metis last_appendR takeWhile_dropWhile_id)
  also have "\<dots> = hd ?a" using a by (simp add: last_rev)
  finally show ?thesis using ha l last by simp
qed

lemma trim_idem: "trim (trim s) = trim s"
proof (cases "trim s = []")
  case True
  have "trim [] = []" by (simp add: trim_def)
  with True show ?thesis by simp
next
  case False
  from trim_ends[OF False] have h: "\<not> isSpace (hd (trim s))" and l: "\<not> isSpace (last (trim s))" by auto
  have 1: "dropWhile isSpace (trim s) = trim s" using False h by (cases "trim s") auto
  have 2: "dropWhile isSpace (rev (trim s)) = rev (trim s)"
    using False l by (cases "rev (trim s)") (auto simp: last_rev[symmetric] hd_rev)
  show ?thesis unfolding trim_def[of "trim s"] 1 2 by simp
qed


lemma tokensFrom_nonspace:
  "\<forall>c\<in>set piece. \<not> isSpace c \<Longrightarrow> t \<in> set (tokensFrom piece s) \<Longrightarrow>
   t \<noteq> [] \<and> (\<forall>c\<in>set t. \<not> isSpace c)"
proof (induction s arbitrary: piece)
  case Nil
  then show ?case by (simp split: if_splits)
next
  case (Cons a s)
  show ?case
  proof (cases "isSpace a")
    case True
    have e: "\<forall>c\<in>set ([]::string). \<not> isSpace c" by simp
    from Cons.prems(2) True have "t = piece \<and> piece \<noteq> [] \<or> t \<in> set (tokensFrom [] s)"
      by (simp split: if_splits)
    then show ?thesis using Cons.IH[OF e] Cons.prems(1) by blast
  next
    case False
    with Cons.prems(1) have p: "\<forall>c\<in>set (piece @ [a]). \<not> isSpace c" by simp
    from Cons.prems(2) False have "t \<in> set (tokensFrom (piece @ [a]) s)" by simp
    then show ?thesis using Cons.IH[OF p] by blast
  qed
qed

lemma concat_tokensFrom:
  "concat (tokensFrom piece s) = piece @ filter (\<lambda>c. \<not> isSpace c) s"
  by (induction s arbitrary: piece) simp_all

subsection \<open>Saving under the unique index\<close>

lemma uniquePerDay_count:
  "uniquePerDay j \<longleftrightarrow>
     (\<forall>uid ds. length (filter (\<lambda>e. userId e = uid \<and> dateString e = ds) j) \<le> 1)"
proof (induction j)
  case Nil
  then show ?case by (simp add: uniquePerDay_def)
next
  case (Cons a j)
  have in_iff: "(userId a, dateString a) \<in> (\<lambda>e. (userId e, dateString e)) ` set j
      \<longleftrightarrow> filter (\<lambda>e. userId e = userId a \<and> dateString e = dateString a) j \<noteq> []"
    unfolding filter_empty_conv image_iff by (simp add: Bex_def) metis
  show ?case
  proof
    assume u: "uniquePerDay (a # j)"
    then have uj: "uniquePerDay j" and nin: "filter (\<lambda>e. userId e = userId a \<and> dateString e = dateString a) j = []"
      using in_iff by (auto simp: uniquePerDay_def)
    show "\<forall>uid ds. length (filter (\<lambda>e. userId e = uid \<and> dateString e = ds) (a # j)) \<le> 1"
    proof (intro allI)
      fix uid ds
      show "length (filter (\<lambda>e. userId e = uid \<and> dateString e = ds) (a # j)) \<le> 1"
      proof (cases "userId a = uid \<and> dateString a = ds")
        case True
        with nin show ?thesis by auto
      next
        case False
        with uj Cons.IH show ?thesis by auto
      qed
    qed
  next
    assume c: "\<forall>uid ds. length (filter (\<lambda>e. userId e = uid \<and> dateString e = ds) (a # j)) \<le> 1"
    have "\<forall>uid ds. length (filter (\<lambda>e. userId e = uid \<and> dateString e = ds) j) \<le> 1"
    proof (intro allI)
      fix uid ds
      from c have "length (filter (\<lambda>e. userId e = uid \<and> dateString e = ds) (a # j)) \<le> 1" by blast
      then show "length (filter (\<lambda>e. userId e = uid \<and> dateString e = ds) j) \<le> 1"
        by (simp split: if_splits)
    qed
    then have uj: "uniquePerDay j" using Cons.IH by simp
    from c have "length (filter (\<lambda>e. userId e = userId a \<and> dateString e = dateString a) (a # j)) \<le> 1"
      by blast
    then have "filter (\<lambda>e. userId e = userId a \<and> dateString e = dateString a) j = []" by simp
    then have "(userId a, dateString a) \<notin> (\<lambda>e. (userId e, dateString e)) ` set j"
      using in_iff by simp
    with uj show "uniquePerDay (a # j)" by (simp add: uniquePerDay_def)
  qed
qed

lemma preSave_fields:
  "userId (preSave a b doc) = userId doc"
  "entryDate (preSave a b doc) = entryDate doc"
  "content (preSave a b doc) = content doc"
  "entry_id (preSave a b doc) = entry_id doc"
  "metadata_timezone (preSave a b doc) = metadata_timezone doc"
  "writingDuration (preSave a b doc) = writingDuration doc"
  "mood (preSave a b doc) = mood doc"
  "tags (preSave a b doc) = tags doc"
  "dateString (preSave a True doc) = toISODate (entryDate doc)"
  "characterCount (preSave True b doc) = length (content doc)"
  "wordCount (preSave True b doc) =
     (if trim (content doc) \<noteq> [] then length (split_ws (trim (content doc))) else 0)"
  by (simp_all add: preSave_def Let_def)

lemma save_Inr:
  "save j doc = Inr (d, j') \<longleftrightarrow>
     schemaValid doc \<and> d = preSave True True doc \<and> j' = j @ [d]
     \<and> \<not> (\<exists>e \<in> set j. userId e = userId doc \<and> dateString e = toISODate (entryDate doc))"
  by (auto simp: save_def Let_def preSave_fields)

lemma save_DuplicateKey:
  "save j doc = Inl DuplicateKey \<longleftrightarrow>
     schemaValid doc
     \<and> (\<exists>e \<in> set j. userId e = userId doc \<and> dateString e = toISODate (entryDate doc))"
  by (auto simp: save_def Let_def preSave_fields)

lemma save_unique:
  assumes "save j doc = Inr (d, j')" "uniquePerDay j"
  shows "uniquePerDay j'"
proof -
  from assms(1) have d: "d = preSave True True doc" "j' = j @ [d]"
    and n: "\<not> (\<exists>e \<in> set j. userId e = userId doc \<and> dateString e = toISODate (entryDate doc))"
    by (simp_all add: save_Inr)
  have "(userId d, dateString d) \<notin> (\<lambda>e. (userId e, dateString e)) ` set j"
    using n d(1) by (auto simp: preSave_fields)
  with assms(2) d(2) show ?thesis by (simp add: uniquePerDay_def)
qed

lemma createEntryAt_cases:
  "snd (createEntryAt jc j n1 n2 req) = j \<and> (\<forall>e. fst (createEntryAt jc j n1 n2 req) \<noteq> Created e)
   \<or> (\<exists>doc d. save j doc = Inr (d, snd (createEntryAt jc j n1 n2 req))
         \<and> fst (createEntryAt jc j n1 n2 req) = Created d)"
  by (auto simp: createEntryAt_def Let_def split: prod.splits option.splits sum.splits save_error.splits)

lemma createEntryAt_unique:
  "uniquePerDay j \<Longrightarrow> uniquePerDay (snd (createEntryAt jc j n1 n2 req))"
  using createEntryAt_cases[of jc j n1 n2 req] save_unique by metis

lemma createEntries_unique:
  "uniquePerDay j \<Longrightarrow> uniquePerDay (createEntries j rs)"
  by (induction j rs rule: createEntries.induct) (simp_all add: createEntry_def createEntryAt_unique)

subsection \<open>The create handler\<close>

lemma length_trim_le: "length (trim s) \<le> length s"
proof -
  have "length (dropWhile isSpace (rev (dropWhile isSpace s))) \<le> length (rev (dropWhile isSpace s))"
    by (rule length_dropWhile_le)
  also have "\<dots> \<le> length s" by (simp add: length_dropWhile_le)
  finally show ?thesis by (simp add: trim_def)
qed

lemma trim_Nil: "trim [] = []"
  by (simp add: trim_def)

lemma length_sanitizeInput_le:
  "length (sanitizeInput s) \<le> length s" "length (sanitizeInput s) \<le> 2000"
proof -
  have "length (filter (\<lambda>c. c \<noteq> CHR ''<'' \<and> c \<noteq> CHR ''>'') (trim s)) \<le> length (trim s)"
    by (rule length_filter_le)
  then have "length (filter (\<lambda>c. c \<noteq> CHR ''<'' \<and> c \<noteq> CHR ''>'') (trim s)) \<le> length s"
    using length_trim_le[of s] by linarith
  then show "length (sanitizeInput s) \<le> length s"
    by (simp add: sanitizeInput_def)
  show "length (sanitizeInput s) \<le> 2000" by (simp add: sanitizeInput_def)
qed

lemma concat_errors_Nil:
  "concat (map (\<lambda>t. if P t then [] else [msg]) l) = [] \<longleftrightarrow> (\<forall>t \<in> set l. P t)"
  by (induction l) simp_all

lemma concat_errors_comp_Nil:
  "concat (map ((\<lambda>t. if P t then [] else [msg]) \<circ> g) l) = [] \<longleftrightarrow> (\<forall>t \<in> set l. P (g t))"
  by (induction l) simp_all

text \<open>What the validation chains accept.\<close>

lemma createEntryValidation_eq:
  "createEntryValidation request = (errors, req) \<Longrightarrow>
     req = request\<lparr>body_content := trim (body_content request),
                  body_tags := map_option (map trim) (body_tags request)\<rparr>
     \<and> (errors = [] \<longleftrightarrow>
          1 \<le> length (trim (body_content request))
          \<and> length (trim (body_content request)) \<le> 2000
          \<and> 1 \<le> body_writingDuration request \<and> body_writingDuration request \<le> 60
          \<and> (\<forall>m. body_mood request = Some m \<longrightarrow> m \<in> set moods)
          \<and> (\<forall>ts. body_tags request = Some ts \<longrightarrow>
                 (\<forall>t \<in> set ts. 1 \<le> length (trim t) \<and> length (trim t) \<le> 50)))"
  unfolding createEntryValidation_def Let_def
  by (auto simp: concat_errors_Nil concat_errors_comp_Nil simp del: concat_eq_Nil_conv split: option.splits if_splits)

lemma toISODate_nonempty: "toISODate t \<noteq> []"
  by (simp add: toISODate_def split: prod.splits)

lemma moods_nonempty: "m \<in> set moods \<Longrightarrow> m \<noteq> []"
  by (auto simp: moods_def)

lemma newJournalEntry_schemaValid:
  assumes v: "createEntryValidation request = ([], req)"
      and c: "trim (sanitizeInput (body_content req)) \<noteq> []"
  shows "schemaValid (newJournalEntry i req (sanitizeInput (body_content req)) n2 (formatDateString n1))"
proof -
  note e = createEntryValidation_eq[OF v]
  let ?doc = "newJournalEntry i req (sanitizeInput (body_content req)) n2 (formatDateString n1)"
  have 1: "content ?doc \<noteq> []" using c by (simp add: newJournalEntry_def)
  have 2: "length (content ?doc) \<le> 2000"
    using length_trim_le[of "sanitizeInput (body_content req)"] length_sanitizeInput_le(2)[of "body_content req"]
    by (simp add: newJournalEntry_def)
  have 3: "writingDuration ?doc \<le> 60" using e by (simp add: newJournalEntry_def)
  have 4: "dateString ?doc \<noteq> []" by (simp add: newJournalEntry_def formatDateString_def toISODate_nonempty)
  have 5: "mood ?doc \<in> set moods"
  proof (cases "body_mood req")
    case None then show ?thesis by (simp add: newJournalEntry_def moods_def)
  next
    case (Some m)
    with e have "m \<in> set moods" by simp
    with Some show ?thesis using moods_nonempty[of m] by (simp add: newJournalEntry_def)
  qed
  have 6: "\<forall>t \<in> set (tags ?doc). length t \<le> 50"
  proof (cases "body_tags request")
    case None with e show ?thesis by (simp add: newJournalEntry_def)
  next
    case (Some ts)
    have "length (sanitizeInput (trim t)) \<le> 50" if "t \<in> set ts" for t
    proof -
      from e Some that have "length (trim t) \<le> 50" by simp
      with length_sanitizeInput_le(1)[of "trim t"] show ?thesis by simp
    qed
    with e Some show ?thesis by (auto simp: newJournalEntry_def)
  qed
  show ?thesis unfolding schemaValid_def using 1 2 3 4 5 6 by simp
qed

text \<open>The handler, with the unreachable branches removed.\<close>

lemma createEntryAt_eq:
  "createEntryAt jc j n1 n2 request =
     (case createEntryValidation request of
        (errors, req) \<Rightarrow>
          if errors \<noteq> [] then (ValidationFailed errors, j)
          else if trim (sanitizeInput (body_content req)) = [] then (ContentRequired, j)
          else if findOneByDay jc (req_userId request) (toISODate n1) \<noteq> None
          then (EntryAlreadyExists, j)
          else if \<exists>e \<in> set j. userId e = req_userId request \<and> dateString e = toISODate n2
          then (EntryAlreadyExists, j)
          else (Created (preSave True True (newJournalEntry (newObjectId j) req
                   (sanitizeInput (body_content req)) n2 (toISODate n1))),
                j @ [preSave True True (newJournalEntry (newObjectId j) req
                   (sanitizeInput (body_content req)) n2 (toISODate n1))]))"
proof -
  obtain errors req where v: "createEntryValidation request = (errors, req)"
    by (cases "createEntryValidation request")
  note e = createEntryValidation_eq[OF v]
  have uid: "req_userId req = req_userId request" using e by simp
  show ?thesis
  proof (cases "errors = []")
    case False
    with v show ?thesis by (simp add: createEntryAt_def)
  next
    case True
    note v' = v[unfolded True]
    show ?thesis
    proof (cases "trim (sanitizeInput (body_content req)) = []")
      case T2: True
      with v True show ?thesis by (auto simp: createEntryAt_def Let_def trim_Nil)
    next
      case F2: False
      then have ne: "sanitizeInput (body_content req) \<noteq> []" using trim_Nil by auto
      have d: "\<not> body_writingDuration req > 60" using e True by simp
      let ?doc = "newJournalEntry (newObjectId j) req (sanitizeInput (body_content req)) n2 (formatDateString n1)"
      have sv: "schemaValid ?doc" using newJournalEntry_schemaValid[OF v' F2] .
      have du: "userId ?doc = req_userId request" "entryDate ?doc = n2"
        using uid by (simp_all add: newJournalEntry_def)
      show ?thesis
      proof (cases "findOneByDay jc (req_userId request) (toISODate n1)")
        case (Some a)
        with v True F2 ne d uid show ?thesis
          by (simp add: createEntryAt_def Let_def formatDateString_def)
      next
        case None
        show ?thesis
        proof (cases "\<exists>e \<in> set j. userId e = req_userId request \<and> dateString e = toISODate n2")
          case T4: True
          then have "save j ?doc = Inl DuplicateKey" using sv du by (simp add: save_DuplicateKey)
          with v True F2 ne d uid None T4 show ?thesis
            by (simp add: createEntryAt_def Let_def formatDateString_def)
        next
          case F4: False
          then have "save j ?doc = Inr (preSave True True ?doc, j @ [preSave True True ?doc])"
            using sv du by (simp add: save_Inr)
          with v True F2 ne d uid None F4 show ?thesis
            by (simp add: createEntryAt_def Let_def formatDateString_def)
        qed
      qed
    qed
  qed
qed

subsection \<open>Derived counts\<close>

lemma example_create:
  "createEntryAt [] [] morning morning writeRequest = (Created firstEntry, [firstEntry])"
  by code_simp


lemma preSave_counts:
  "characterCount (preSave True b doc) = length (content (preSave True b doc))"
  "wordCount (preSave True b doc) = length (tokens (trim (content (preSave True b doc))))"
proof -
  show "characterCount (preSave True b doc) = length (content (preSave True b doc))"
    by (simp add: preSave_fields)
  show "wordCount (preSave True b doc) = length (tokens (trim (content (preSave True b doc))))"
  proof (cases "trim (content doc) = []")
    case True
    then show ?thesis by (simp add: preSave_fields tokens_def)
  next
    case False
    from trim_ends[OF False] have "split_ws (trim (content doc)) = tokens (trim (content doc))"
      using False by (intro split_ws_tokens) auto
    with False show ?thesis by (simp add: preSave_fields)
  qed
qed

lemma createEntryAt_Created:
  assumes "createEntryAt jc j n1 n2 request = (Created e, j')"
  shows "\<exists>req. e = preSave True True (newJournalEntry (newObjectId j) req
                   (sanitizeInput (body_content req)) n2 (toISODate n1))
         \<and> createEntryValidation request = ([], req) \<and> j' = j @ [e]"
proof -
  obtain errors req where v: "createEntryValidation request = (errors, req)"
    by (cases "createEntryValidation request")
  from assms show ?thesis
    unfolding createEntryAt_eq v by (auto split: if_splits)
qed

lemma createEntryAt_journal:
  "snd (createEntryAt jc j n1 n2 request) = j
   \<or> (\<exists>doc. snd (createEntryAt jc j n1 n2 request) = j @ [preSave True True doc])"
proof -
  obtain errors req where v: "createEntryValidation request = (errors, req)"
    by (cases "createEntryValidation request")
  show ?thesis unfolding createEntryAt_eq v by auto
qed

lemma createEntries_counts:
  "\<forall>e \<in> set j. characterCount e = length (content e)
               \<and> wordCount e = length (tokens (trim (content e))) \<Longrightarrow>
   \<forall>e \<in> set (createEntries j rs). characterCount e = length (content e)
               \<and> wordCount e = length (tokens (trim (content e)))"
proof (induction j rs rule: createEntries.induct)
  case (1 j)
  then show ?case by simp
next
  case (2 j now1 now2 request rs)
  have "\<forall>e \<in> set (snd (createEntry j now1 now2 request)). characterCount e = length (content e)
               \<and> wordCount e = length (tokens (trim (content e)))"
    using createEntryAt_journal[of j j now1 now2 request] "2.prems" preSave_counts
    unfolding createEntry_def by auto
  from "2.IH"[OF this] show ?case by simp
qed

text \<open>
  C10. The hook sets the character count to the length of the stored content and the word
  count to the number of white-space separated tokens of the trimmed content, which is 0
  when nothing is left after trimming. It does so whenever the content was set, before the
  insert: the entry a create request stores, and every entry of a collection built by
  create requests, carries these counts.
\<close>

theorem counts_derived_from_content:
  "characterCount (preSave True b doc) = length (content (preSave True b doc))
   \<and> wordCount (preSave True b doc) = length (tokens (trim (content (preSave True b doc))))
   \<and> (trim (content doc) = [] \<longrightarrow> wordCount (preSave True b doc) = 0)
   \<and> (createEntryAt jc j n1 n2 request = (Created e, j') \<longrightarrow>
        e \<in> set j' \<and> characterCount e = length (content e)
        \<and> wordCount e = length (tokens (trim (content e))))
   \<and> (\<forall>x \<in> set (createEntries [] rs).
        characterCount x = length (content x)
        \<and> wordCount x = length (tokens (trim (content x))))"
proof -
  have a: "trim (content doc) = [] \<longrightarrow> wordCount (preSave True b doc) = 0"
    by (simp add: preSave_fields)
  have c: "createEntryAt jc j n1 n2 request = (Created e, j') \<longrightarrow>
        e \<in> set j' \<and> characterCount e = length (content e)
        \<and> wordCount e = length (tokens (trim (content e)))"
    using createEntryAt_Created[of jc j n1 n2 request e j'] preSave_counts by auto
  have d: "\<forall>x \<in> set (createEntries [] rs).
        characterCount x = length (content x)
        \<and> wordCount x = length (tokens (trim (content x)))"
    by (rule createEntries_counts) simp
  show ?thesis using preSave_counts[of b doc] a c d by blast
qed

theorem counts_derived_from_content_witness:
  "trim (content (firstEntry\<lparr>content := ''  ''\<rparr>)) = []
   \<and> wordCount (preSave True True (firstEntry\<lparr>content := ''  ''\<rparr>)) = 0
   \<and> createEntryAt [] [] morning morning writeRequest = (Created firstEntry, [firstEntry])
   \<and> firstEntry \<in> set (createEntries [] [(morning, morning, writeRequest)])
   \<and> characterCount firstEntry = length (content firstEntry)
   \<and> wordCount firstEntry = length (tokens (trim (content firstEntry)))"
proof -
  have t: "trim (content (firstEntry\<lparr>content := ''  ''\<rparr>)) = []" by code_simp
  have m: "firstEntry \<in> set (createEntries [] [(morning, morning, writeRequest)])"
    by (simp add: createEntry_def example_create)
  show ?thesis
    using counts_derived_from_content
      [where doc = "firstEntry\<lparr>content := ''  ''\<rparr>" and b = True
         and jc = "[]" and j = "[]" and ?n1.0 = morning and ?n2.0 = morning
         and request = writeRequest and e = firstEntry and j' = "[firstEntry]"
         and rs = "[(morning, morning, writeRequest)]"]
      t m example_create
    by blast
qed

subsection \<open>One entry per identity and day\<close>

lemma createEntryAt_accepted:
  assumes "createEntryAt jc j n1 n2 request = (Created e, j')"
  shows "\<exists>req. createEntryValidation request = ([], req)
         \<and> trim (sanitizeInput (body_content req)) \<noteq> []
         \<and> findOneByDay jc (req_userId request) (toISODate n1) = None
         \<and> \<not> (\<exists>x \<in> set j. userId x = req_userId request \<and> dateString x = toISODate n2)
         \<and> e = preSave True True (newJournalEntry (newObjectId j) req
                   (sanitizeInput (body_content req)) n2 (toISODate n1))
         \<and> j' = j @ [e]"
proof -
  obtain errors req where v: "createEntryValidation request = (errors, req)"
    by (cases "createEntryValidation request")
  from assms show ?thesis
    unfolding createEntryAt_eq v by (auto split: if_splits)
qed

lemma created_entry_fields:
  assumes "createEntryAt jc j n1 n2 request = (Created e, j')"
  shows "userId e = req_userId request" "entryDate e = n2" "dateString e = toISODate n2"
    "metadata_timezone e = (case header_timezone request of None \<Rightarrow> ''UTC''
                            | Some z \<Rightarrow> if z = [] then ''UTC'' else z)"
proof -
  from createEntryAt_accepted[OF assms] obtain req where
    v: "createEntryValidation request = ([], req)"
    and e: "e = preSave True True (newJournalEntry (newObjectId j) req
                   (sanitizeInput (body_content req)) n2 (toISODate n1))" by blast
  from createEntryValidation_eq[OF v] have r: "req_userId req = req_userId request"
    "header_timezone req = header_timezone request" by simp_all
  show "userId e = req_userId request" using e r by (simp add: preSave_fields newJournalEntry_def)
  show "entryDate e = n2" using e by (simp add: preSave_fields newJournalEntry_def)
  show "dateString e = toISODate n2" using e by (simp add: preSave_fields newJournalEntry_def)
  show "metadata_timezone e = (case header_timezone request of None \<Rightarrow> ''UTC''
                            | Some z \<Rightarrow> if z = [] then ''UTC'' else z)"
    using e r by (simp add: preSave_fields newJournalEntry_def)
qed

lemma createEntryAt_index_refuses:
  assumes "\<exists>x \<in> set j. userId x = req_userId request \<and> dateString x = toISODate n2"
  shows "snd (createEntryAt jc j n1 n2 request) = j"
    and "fst (createEntryAt jc j n1 n2 request) \<noteq> Created d"
    and "createEntryValidation request = ([], req) \<Longrightarrow>
         trim (sanitizeInput (body_content req)) \<noteq> [] \<Longrightarrow>
         createEntryAt jc j n1 n2 request = (EntryAlreadyExists, j)"
proof -
  obtain errors r where v: "createEntryValidation request = (errors, r)"
    by (cases "createEntryValidation request")
  show "snd (createEntryAt jc j n1 n2 request) = j"
    unfolding createEntryAt_eq v using assms by simp
  show "fst (createEntryAt jc j n1 n2 request) \<noteq> Created d"
    unfolding createEntryAt_eq v using assms by simp
  show "createEntryValidation request = ([], req) \<Longrightarrow>
         trim (sanitizeInput (body_content req)) \<noteq> [] \<Longrightarrow>
         createEntryAt jc j n1 n2 request = (EntryAlreadyExists, j)"
    unfolding createEntryAt_eq using assms by simp
qed

lemma createEntry_twice:
  assumes c: "createEntry j n1 n2 request = (Created e, j1)"
      and d: "toISODate m1 = toISODate n2 \<or> toISODate m2 = toISODate n2"
  shows "createEntry j1 m1 m2 request = (EntryAlreadyExists, j1)"
proof -
  from c have c': "createEntryAt j j n1 n2 request = (Created e, j1)" by (simp add: createEntry_def)
  from createEntryAt_accepted[OF c'] obtain req where
    v: "createEntryValidation request = ([], req)"
    and t: "trim (sanitizeInput (body_content req)) \<noteq> []"
    and j1: "j1 = j @ [e]" by blast
  note f = created_entry_fields[OF c']
  have mem: "e \<in> set j1" using j1 by simp
  show ?thesis
  proof (cases "toISODate m2 = toISODate n2")
    case True
    then have "\<exists>x \<in> set j1. userId x = req_userId request \<and> dateString x = toISODate m2"
      using mem f by auto
    from createEntryAt_index_refuses(3)[OF this v t] show ?thesis by (simp add: createEntry_def)
  next
    case False
    with d have "toISODate m1 = toISODate n2" by simp
    then have "findOneByDay j1 (req_userId request) (toISODate m1) \<noteq> None"
      using mem f by (auto simp: findOneByDay_def find_None_iff)
    then show ?thesis unfolding createEntry_def createEntryAt_eq v using t by simp
  qed
qed

lemma example_race:
  "createEntryAt [] [firstEntry] (morning + 1000) (morning + 2000) writeRequest
     = (EntryAlreadyExists, [firstEntry])"
  by code_simp

lemma example_validation:
  "createEntryValidation writeRequest =
     ([], writeRequest\<lparr>body_content := ''Hello  brave new world'', body_tags := Some [''daily'']\<rparr>)"
  by code_simp

text \<open>
  C1. In a collection built by any sequence of create requests, each pair of identity and
  day key has at most one entry, and a request keeps the invariant whatever state of the
  collection its existence check saw. A second create of the same identity on the day of
  the first is answered "Entry already exists" and changes nothing. The refusal is the
  index's: with an entry of the pair present at the save, nothing is stored even when the
  existence check passed on an older state, a valid request is then answered "Entry
  already exists", and \<open>save\<close> on its own returns the duplicate-key error.
\<close>

theorem one_entry_per_identity_and_day:
  "uniquePerDay (createEntries [] rs)
   \<and> (\<forall>uid ds. length (filter (\<lambda>x. userId x = uid \<and> dateString x = ds)
                        (createEntries [] rs)) \<le> 1)
   \<and> (uniquePerDay j \<longrightarrow> uniquePerDay (snd (createEntryAt jc j n1 n2 request)))
   \<and> (createEntry j n1 n2 request = (Created e, j1)
        \<and> (toISODate m1 = toISODate n2 \<or> toISODate m2 = toISODate n2) \<longrightarrow>
        createEntry j1 m1 m2 request = (EntryAlreadyExists, j1))
   \<and> ((\<exists>x \<in> set js. userId x = req_userId rq \<and> dateString x = toISODate k2) \<longrightarrow>
        snd (createEntryAt jo js k1 k2 rq) = js
        \<and> (\<forall>d. fst (createEntryAt jo js k1 k2 rq) \<noteq> Created d)
        \<and> (createEntryValidation rq = ([], req)
             \<and> trim (sanitizeInput (body_content req)) \<noteq> [] \<longrightarrow>
             createEntryAt jo js k1 k2 rq = (EntryAlreadyExists, js)))
   \<and> (schemaValid doc
        \<and> (\<exists>x \<in> set jd. userId x = userId doc \<and> dateString x = toISODate (entryDate doc)) \<longrightarrow>
        save jd doc = Inl DuplicateKey)"
proof -
  have u: "uniquePerDay (createEntries [] rs)"
    by (rule createEntries_unique) (simp add: uniquePerDay_def)
  have a: "\<forall>uid ds. length (filter (\<lambda>x. userId x = uid \<and> dateString x = ds)
                        (createEntries [] rs)) \<le> 1"
    using u by (simp add: uniquePerDay_count)
  have b: "uniquePerDay j \<longrightarrow> uniquePerDay (snd (createEntryAt jc j n1 n2 request))"
    by (simp add: createEntryAt_unique)
  have c: "createEntry j n1 n2 request = (Created e, j1)
        \<and> (toISODate m1 = toISODate n2 \<or> toISODate m2 = toISODate n2) \<longrightarrow>
        createEntry j1 m1 m2 request = (EntryAlreadyExists, j1)"
    using createEntry_twice by blast
  have d: "(\<exists>x \<in> set js. userId x = req_userId rq \<and> dateString x = toISODate k2) \<longrightarrow>
        snd (createEntryAt jo js k1 k2 rq) = js
        \<and> (\<forall>d. fst (createEntryAt jo js k1 k2 rq) \<noteq> Created d)
        \<and> (createEntryValidation rq = ([], req)
             \<and> trim (sanitizeInput (body_content req)) \<noteq> [] \<longrightarrow>
             createEntryAt jo js k1 k2 rq = (EntryAlreadyExists, js))"
    using createEntryAt_index_refuses[where j = js and request = rq and ?n2.0 = k2
        and jc = jo and ?n1.0 = k1] by blast
  have s: "schemaValid doc
        \<and> (\<exists>x \<in> set jd. userId x = userId doc \<and> dateString x = toISODate (entryDate doc)) \<longrightarrow>
        save jd doc = Inl DuplicateKey"
    by (simp add: save_DuplicateKey)
  show ?thesis using u a b c d s by blast
qed

theorem one_entry_per_identity_and_day_witness:
  "uniquePerDay []
   \<and> uniquePerDay (snd (createEntryAt [] [] morning morning writeRequest))
   \<and> createEntry [] morning morning writeRequest = (Created firstEntry, [firstEntry])
   \<and> toISODate (morning + 1000) = toISODate morning
   \<and> createEntry [firstEntry] (morning + 1000) (morning + 2000) writeRequest
        = (EntryAlreadyExists, [firstEntry])
   \<and> (\<exists>x \<in> set [firstEntry]. userId x = req_userId writeRequest
          \<and> dateString x = toISODate (morning + 2000))
   \<and> createEntryAt [] [firstEntry] (morning + 1000) (morning + 2000) writeRequest
        = (EntryAlreadyExists, [firstEntry])
   \<and> schemaValid firstEntry
   \<and> save [firstEntry] firstEntry = Inl DuplicateKey"
proof -
  have h1: "uniquePerDay []" by (simp add: uniquePerDay_def)
  have h2: "createEntry [] morning morning writeRequest = (Created firstEntry, [firstEntry])"
    by (simp add: createEntry_def example_create)
  have h3: "toISODate (morning + 1000) = toISODate morning" by code_simp
  have h4: "\<exists>x \<in> set [firstEntry]. userId x = req_userId writeRequest
          \<and> dateString x = toISODate (morning + 2000)" by code_simp
  have h5: "trim (sanitizeInput (body_content
      (writeRequest\<lparr>body_content := ''Hello  brave new world'', body_tags := Some [''daily'']\<rparr>))) \<noteq> []"
    by code_simp
  have h6: "schemaValid firstEntry" by code_simp
  have h7: "\<exists>x \<in> set [firstEntry]. userId x = userId firstEntry
          \<and> dateString x = toISODate (entryDate firstEntry)" by code_simp
  show ?thesis
    using one_entry_per_identity_and_day
      [where j = "[]" and jc = "[]" and ?n1.0 = morning and ?n2.0 = morning
         and request = writeRequest and e = firstEntry and ?j1.0 = "[firstEntry]"
         and ?m1.0 = "morning + 1000" and ?m2.0 = "morning + 2000"
         and js = "[firstEntry]" and jo = "[]" and ?k1.0 = "morning + 1000"
         and ?k2.0 = "morning + 2000" and rq = writeRequest
         and req = "writeRequest\<lparr>body_content := ''Hello  brave new world'',
                                  body_tags := Some [''daily'']\<rparr>"
         and doc = firstEntry and jd = "[firstEntry]"]
      h1 h2 h3 h4 h5 h6 h7 example_validation
    by blast
qed

subsection \<open>The day key\<close>








subsection \<open>Validation of create requests\<close>

lemma createEntryAt_Created_iff:
  "(\<exists>e. fst (createEntryAt jc j n1 n2 request) = Created e) \<longleftrightarrow>
     (1 \<le> length (trim (body_content request))
      \<and> length (trim (body_content request)) \<le> 2000
      \<and> trim (sanitizeInput (trim (body_content request))) \<noteq> []
      \<and> 1 \<le> body_writingDuration request \<and> body_writingDuration request \<le> 60
      \<and> (\<forall>m. body_mood request = Some m \<longrightarrow> m \<in> set moods)
      \<and> (\<forall>ts. body_tags request = Some ts \<longrightarrow>
             (\<forall>t \<in> set ts. 1 \<le> length (trim t) \<and> length (trim t) \<le> 50))
      \<and> findOneByDay jc (req_userId request) (toISODate n1) = None
      \<and> \<not> (\<exists>x \<in> set j. userId x = req_userId request \<and> dateString x = toISODate n2))"
proof -
  obtain errors req where v: "createEntryValidation request = (errors, req)"
    by (cases "createEntryValidation request")
  note e = createEntryValidation_eq[OF v]
  have c: "body_content req = trim (body_content request)" using e by simp
  show ?thesis
    unfolding createEntryAt_eq v using e c by (auto split: if_splits)
qed

lemma duration_out_of_range:
  assumes "body_writingDuration request < 1 \<or> 60 < body_writingDuration request"
  shows "\<exists>errs. createEntryAt jc j n1 n2 request = (ValidationFailed errs, j)
           \<and> ''Writing duration must be between 1 and 60 seconds'' \<in> set errs"
proof -
  obtain errors req where v: "createEntryValidation request = (errors, req)"
    by (cases "createEntryValidation request")
  have m: "''Writing duration must be between 1 and 60 seconds'' \<in> set errors"
    using v assms unfolding createEntryValidation_def Let_def by auto
  then have "errors \<noteq> []" by auto
  with m show ?thesis unfolding createEntryAt_eq v by simp
qed

lemma created_duration:
  assumes "createEntryAt jc j n1 n2 request = (Created e, j')"
  shows "writingDuration e = body_writingDuration request"
proof -
  from createEntryAt_accepted[OF assms] obtain req where
    v: "createEntryValidation request = ([], req)"
    and e: "e = preSave True True (newJournalEntry (newObjectId j) req
                   (sanitizeInput (body_content req)) n2 (toISODate n1))" by blast
  from createEntryValidation_eq[OF v] have "body_writingDuration req = body_writingDuration request"
    by simp
  with e show ?thesis by (simp add: preSave_fields newJournalEntry_def)
qed

lemma any_duration_in_range:
  assumes a: "\<exists>e. fst (createEntryAt jc j n1 n2 request) = Created e"
      and d: "1 \<le> d" "d \<le> 60"
  shows "\<exists>e'. fst (createEntryAt jc j n1 n2 (request\<lparr>body_writingDuration := d\<rparr>)) = Created e'
           \<and> writingDuration e' = d"
proof -
  have "\<exists>e'. fst (createEntryAt jc j n1 n2 (request\<lparr>body_writingDuration := d\<rparr>)) = Created e'"
    using a d unfolding createEntryAt_Created_iff by simp
  then obtain e' where e': "fst (createEntryAt jc j n1 n2 (request\<lparr>body_writingDuration := d\<rparr>)) = Created e'"
    by blast
  then have "createEntryAt jc j n1 n2 (request\<lparr>body_writingDuration := d\<rparr>)
      = (Created e', snd (createEntryAt jc j n1 n2 (request\<lparr>body_writingDuration := d\<rparr>)))"
    by (simp add: prod_eq_iff)
  from created_duration[OF this] e' show ?thesis by simp
qed

lemma created_within_bounds:
  assumes "createEntryAt jc j n1 n2 request = (Created e, j')"
  shows "content e \<noteq> [] \<and> length (content e) \<le> 2000
         \<and> 1 \<le> writingDuration e \<and> writingDuration e \<le> 60
         \<and> mood e \<in> set moods \<and> (\<forall>t \<in> set (tags e). length t \<le> 50)"
proof -
  from createEntryAt_accepted[OF assms] obtain req where
    v: "createEntryValidation request = ([], req)"
    and t: "trim (sanitizeInput (body_content req)) \<noteq> []"
    and e: "e = preSave True True (newJournalEntry (newObjectId j) req
                   (sanitizeInput (body_content req)) n2 (toISODate n1))" by blast
  have "schemaValid (newJournalEntry (newObjectId j) req (sanitizeInput (body_content req)) n2
          (formatDateString n1))"
    by (rule newJournalEntry_schemaValid[OF v t])
  then have sv: "schemaValid (newJournalEntry (newObjectId j) req (sanitizeInput (body_content req)) n2
          (toISODate n1))" by (simp add: formatDateString_def)
  have "1 \<le> body_writingDuration request" using createEntryValidation_eq[OF v] by simp
  then have "1 \<le> writingDuration e" using created_duration[OF assms] by simp
  with sv e show ?thesis by (simp add: schemaValid_def preSave_fields)
qed

text \<open>
  C6, amended. A create request is accepted exactly when the content, trimmed, has between
  1 and 2000 characters and is not empty after sanitising, the duration lies between 1 and
  60 inclusive, the mood, when present, is one of the five values, each tag, trimmed, has
  between 1 and 50 characters, and the identity has no entry for the day. The stored entry
  is within the same bounds. A duration below 1 or above 60, so 61, is answered
  "Validation failed" with the duration message; every duration from 1 to 60 is accepted
  in a request that is accepted with some duration. A second create of the same request on
  the day of the first is answered "Entry already exists", status 400, and changes nothing.
\<close>

theorem createEntry_validation:
  "((\<exists>x. fst (createEntryAt jc j n1 n2 request) = Created x) \<longleftrightarrow>
     (1 \<le> length (trim (body_content request))
      \<and> length (trim (body_content request)) \<le> 2000
      \<and> trim (sanitizeInput (trim (body_content request))) \<noteq> []
      \<and> 1 \<le> body_writingDuration request \<and> body_writingDuration request \<le> 60
      \<and> (\<forall>m. body_mood request = Some m \<longrightarrow> m \<in> set moods)
      \<and> (\<forall>ts. body_tags request = Some ts \<longrightarrow>
             (\<forall>t \<in> set ts. 1 \<le> length (trim t) \<and> length (trim t) \<le> 50))
      \<and> findOneByDay jc (req_userId request) (toISODate n1) = None
      \<and> \<not> (\<exists>x \<in> set j. userId x = req_userId request \<and> dateString x = toISODate n2)))
   \<and> (createEntryAt jc j n1 n2 request = (Created e, j') \<longrightarrow>
        content e \<noteq> [] \<and> length (content e) \<le> 2000
        \<and> 1 \<le> writingDuration e \<and> writingDuration e \<le> 60
        \<and> mood e \<in> set moods \<and> (\<forall>t \<in> set (tags e). length t \<le> 50))
   \<and> (body_writingDuration rq < 1 \<or> 60 < body_writingDuration rq \<longrightarrow>
        (\<exists>errs. createEntryAt jo js k1 k2 rq = (ValidationFailed errs, js)
           \<and> ''Writing duration must be between 1 and 60 seconds'' \<in> set errs))
   \<and> ((\<exists>x. fst (createEntryAt jc j n1 n2 request) = Created x) \<and> 1 \<le> d \<and> d \<le> 60 \<longrightarrow>
        (\<exists>e'. fst (createEntryAt jc j n1 n2 (request\<lparr>body_writingDuration := d\<rparr>)) = Created e'
           \<and> writingDuration e' = d))
   \<and> (createEntry j n1 n2 request = (Created e, j') \<and> toISODate m1 = toISODate n2 \<longrightarrow>
        createEntry j' m1 m2 request = (EntryAlreadyExists, j')
        \<and> create_status (fst (createEntry j' m1 m2 request)) = 400)"
proof -
  have b: "createEntryAt jc j n1 n2 request = (Created e, j') \<longrightarrow>
        content e \<noteq> [] \<and> length (content e) \<le> 2000
        \<and> 1 \<le> writingDuration e \<and> writingDuration e \<le> 60
        \<and> mood e \<in> set moods \<and> (\<forall>t \<in> set (tags e). length t \<le> 50)"
    using created_within_bounds by blast
  have c: "body_writingDuration rq < 1 \<or> 60 < body_writingDuration rq \<longrightarrow>
        (\<exists>errs. createEntryAt jo js k1 k2 rq = (ValidationFailed errs, js)
           \<and> ''Writing duration must be between 1 and 60 seconds'' \<in> set errs)"
    using duration_out_of_range by blast
  have d: "(\<exists>x. fst (createEntryAt jc j n1 n2 request) = Created x) \<and> 1 \<le> d \<and> d \<le> 60 \<longrightarrow>
        (\<exists>e'. fst (createEntryAt jc j n1 n2 (request\<lparr>body_writingDuration := d\<rparr>)) = Created e'
           \<and> writingDuration e' = d)"
    using any_duration_in_range by blast
  have e: "createEntry j n1 n2 request = (Created e, j') \<and> toISODate m1 = toISODate n2 \<longrightarrow>
        createEntry j' m1 m2 request = (EntryAlreadyExists, j')
        \<and> create_status (fst (createEntry j' m1 m2 request)) = 400"
  proof
    assume h: "createEntry j n1 n2 request = (Created e, j') \<and> toISODate m1 = toISODate n2"
    then have "createEntry j' m1 m2 request = (EntryAlreadyExists, j')"
      using createEntry_twice[of j n1 n2 request e j' m1 m2] by blast
    then show "createEntry j' m1 m2 request = (EntryAlreadyExists, j')
        \<and> create_status (fst (createEntry j' m1 m2 request)) = 400"
      by (simp add: create_status_def)
  qed
  show ?thesis using createEntryAt_Created_iff[of jc j n1 n2 request] b c d e by blast
qed

theorem createEntry_validation_witness:
  "(\<exists>x. fst (createEntryAt [] [] morning morning writeRequest) = Created x)
   \<and> 1 \<le> length (trim (body_content writeRequest))
   \<and> length (trim (body_content writeRequest)) \<le> 2000
   \<and> 1 \<le> body_writingDuration writeRequest \<and> body_writingDuration writeRequest \<le> 60
   \<and> body_mood writeRequest = Some ''happy'' \<and> ''happy'' \<in> set moods
   \<and> body_tags writeRequest = Some [''daily '']
   \<and> 1 \<le> length (trim ''daily '') \<and> length (trim ''daily '') \<le> 50
   \<and> createEntryAt [] [] morning morning writeRequest = (Created firstEntry, [firstEntry])
   \<and> length (content firstEntry) \<le> 2000 \<and> writingDuration firstEntry \<le> 60
   \<and> 60 < body_writingDuration (writeRequest\<lparr>body_writingDuration := 61\<rparr>)
   \<and> (\<exists>errs. createEntryAt [] [] morning morning (writeRequest\<lparr>body_writingDuration := 61\<rparr>)
            = (ValidationFailed errs, [])
          \<and> ''Writing duration must be between 1 and 60 seconds'' \<in> set errs)
   \<and> (1::rat) \<le> 60
   \<and> (\<exists>e'. fst (createEntryAt [] [] morning morning (writeRequest\<lparr>body_writingDuration := 60\<rparr>))
            = Created e' \<and> writingDuration e' = 60)
   \<and> createEntry [] morning morning writeRequest = (Created firstEntry, [firstEntry])
   \<and> toISODate (morning + 1000) = toISODate morning
   \<and> createEntry [firstEntry] (morning + 1000) (morning + 2000) writeRequest
        = (EntryAlreadyExists, [firstEntry])"
proof -
  note T = createEntry_validation
      [where jc = "[]" and j = "[]" and ?n1.0 = morning and ?n2.0 = morning
         and request = writeRequest and e = firstEntry and j' = "[firstEntry]"
         and rq = "writeRequest\<lparr>body_writingDuration := 61\<rparr>" and jo = "[]" and js = "[]"
         and ?k1.0 = morning and ?k2.0 = morning and d = 60
         and ?m1.0 = "morning + 1000" and ?m2.0 = "morning + 2000"]
  have x: "\<exists>x. fst (createEntryAt [] [] morning morning writeRequest) = Created x"
    by (simp add: example_create)
  have c: "createEntry [] morning morning writeRequest = (Created firstEntry, [firstEntry])"
    by (simp add: createEntry_def example_create)
  have day: "toISODate (morning + 1000) = toISODate morning" by code_simp
  have m: "body_mood writeRequest = Some ''happy''" "body_tags writeRequest = Some [''daily '']"
    by (simp_all add: writeRequest_def)
  have big: "60 < body_writingDuration (writeRequest\<lparr>body_writingDuration := 61\<rparr>)" by simp
  from T x have conds: "1 \<le> length (trim (body_content writeRequest))
      \<and> length (trim (body_content writeRequest)) \<le> 2000
      \<and> 1 \<le> body_writingDuration writeRequest \<and> body_writingDuration writeRequest \<le> 60
      \<and> (\<forall>m. body_mood writeRequest = Some m \<longrightarrow> m \<in> set moods)
      \<and> (\<forall>ts. body_tags writeRequest = Some ts \<longrightarrow>
             (\<forall>t \<in> set ts. 1 \<le> length (trim t) \<and> length (trim t) \<le> 50))"
    by blast
  have tg: "1 \<le> length (trim ''daily '') \<and> length (trim ''daily '') \<le> 50"
    using conds m by simp
  from T example_create have bounds:
    "length (content firstEntry) \<le> 2000 \<and> writingDuration firstEntry \<le> 60" by blast
  from T big have rej: "\<exists>errs. createEntryAt [] [] morning morning
            (writeRequest\<lparr>body_writingDuration := 61\<rparr>) = (ValidationFailed errs, [])
          \<and> ''Writing duration must be between 1 and 60 seconds'' \<in> set errs" by blast
  have le: "(1::rat) \<le> 60" by simp
  from T x le have acc: "\<exists>e'. fst (createEntryAt [] [] morning morning
            (writeRequest\<lparr>body_writingDuration := 60\<rparr>)) = Created e' \<and> writingDuration e' = 60"
    by blast
  from T c day have again: "createEntry [firstEntry] (morning + 1000) (morning + 2000) writeRequest
        = (EntryAlreadyExists, [firstEntry])" by blast
  show ?thesis using x conds m tg example_create bounds big rej le acc c day again
    by (intro conjI) blast+
qed

text \<open>
  The claim as stated fails below 1: half a second lies in the interval from 0 to 60 and
  is refused.
\<close>

theorem half_second_refused:
  "0 < body_writingDuration (writeRequest\<lparr>body_writingDuration := 1 / 2\<rparr>)
   \<and> body_writingDuration (writeRequest\<lparr>body_writingDuration := 1 / 2\<rparr>) \<le> 60
   \<and> createEntry [] morning morning (writeRequest\<lparr>body_writingDuration := 1 / 2\<rparr>)
        = (ValidationFailed [''Writing duration must be between 1 and 60 seconds''], [])
   \<and> fst (createEntry [] morning morning writeRequest) = Created firstEntry"
  by code_simp

subsection \<open>Reading one entry\<close>







subsection \<open>Consistency rate\<close>


lemma firstEntryDateOf_None:
  "firstEntryDateOf j uid = None \<longleftrightarrow> (\<forall>e \<in> set j. userId e \<noteq> uid)"
proof -
  have "firstEntryDateOf j uid = None \<longleftrightarrow> filter (\<lambda>e. userId e = uid) j = []"
    unfolding firstEntryDateOf_def by (simp split: list.splits)
  then show ?thesis by (simp add: filter_empty_conv)
qed








subsection \<open>The streak walk\<close>










subsection \<open>Day keys of the year before\<close>







subsection \<open>Current streak\<close>








end
